theory Spec2Isabelle
  imports Complex_Main "HOL-Library.Log_Nat"
begin

section \<open>Cube Rush: the game state\<close>

text \<open>
  The game logic of \<^verbatim>\<open>src/Cube Rush/main.js\<close> is three callbacks over a handful of
  module-level variables: the countdown (\<^verbatim>\<open>setInterval\<close>, 1000 ms), the spawner
  (\<^verbatim>\<open>setInterval\<close>, 700 ms) and the click handler.  The browser runs one callback at a
  time, so a session is a sequence of events applied to one state.

  A cube is a mesh object; the game logic reads and writes only its \<^verbatim>\<open>userData\<close>.
  Object identity is modelled by the position of the cube in the array \<^verbatim>\<open>cubes\<close>
  (cubes are pushed once and never removed), so a reference to a cube is an index.
  JavaScript numbers are modelled as unbounded integers: \<^verbatim>\<open>score\<close> and
  \<^verbatim>\<open>timeLeft\<close> only ever hold small integers, which doubles represent exactly.
  Material colour, scale, position and rotation of a mesh are never read by the game
  logic and are left out.
\<close>

record userData =
  cubeId :: nat
  isActive :: bool

text \<open>The three text nodes written by \<^verbatim>\<open>updateUI\<close>: the numbers shown and the message.\<close>

record display =
  scoreEl :: int
  timeEl :: int
  messageEl :: string

record state =
  score :: int
  timeLeft :: int
  gameOver :: bool
  timerScheduled :: bool
  cubes :: "userData list"
  activeCubes :: "nat list"
  ui :: display

text \<open>
  \<open>timerScheduled\<close> is the host's side of \<^verbatim>\<open>timerInterval\<close>: whether the interval
  registered by \<^verbatim>\<open>setInterval\<close> is still live (\<^verbatim>\<open>clearInterval\<close> ends it).

  \<open>activeCubes\<close> is a JavaScript \<^verbatim>\<open>Set\<close> of cube references: a duplicate-free
  collection in insertion order.  Its four operations used by the game:
\<close>

definition set_has :: "nat list \<Rightarrow> nat \<Rightarrow> bool" where
  "set_has xs x = (x \<in> set xs)"

definition set_add :: "nat list \<Rightarrow> nat \<Rightarrow> nat list" where
  "set_add xs x = (if set_has xs x then xs else xs @ [x])"

definition set_delete :: "nat list \<Rightarrow> nat \<Rightarrow> nat list" where
  "set_delete xs x = filter (\<lambda>y. y \<noteq> x) xs"

definition set_size :: "nat list \<Rightarrow> nat" where
  "set_size xs = length xs"

subsection \<open>Constants and the initial state\<close>

definition rows :: nat where "rows = 4"
definition cols :: nat where "cols = 6"
definition maxActive :: nat where "maxActive = 3"

text \<open>
  The nested creation loop pushes \<open>rows * cols\<close> cubes in row-major order, numbering
  them with \<^verbatim>\<open>idCounter++\<close> from 1, each with \<^verbatim>\<open>isActive: false\<close>.
\<close>

definition init_cubes :: "userData list" where
  "init_cubes = map (\<lambda>k. \<lparr>cubeId = Suc k, isActive = False\<rparr>) [0..<rows * cols]"

definition play_message :: string where
  "play_message = ''Click the glowing cubes!''"

definition over_message :: string where
  "over_message = ''Game over! Reload to play again.''"

definition updateUI :: "state \<Rightarrow> state" where
  "updateUI s =
     s\<lparr>ui := \<lparr>scoreEl = score s, timeEl = timeLeft s,
              messageEl = (if gameOver s then over_message else play_message)\<rparr>\<rparr>"

definition init :: state where
  "init = updateUI
     \<lparr>score = 0, timeLeft = 30, gameOver = False, timerScheduled = True,
      cubes = init_cubes, activeCubes = [],
      ui = \<lparr>scoreEl = 0, timeEl = 0, messageEl = []\<rparr>\<rparr>"

section \<open>The callbacks\<close>

subsection \<open>Countdown timer\<close>

definition timerCallback :: "state \<Rightarrow> state" where
  "timerCallback s =
     (if gameOver s then s
      else
        let s1 = s\<lparr>timeLeft := timeLeft s - 1\<rparr>;
            s2 = (if timeLeft s1 \<le> 0
                  then s1\<lparr>timeLeft := 0, gameOver := True, timerScheduled := False\<rparr>
                  else s1)
        in updateUI s2)"

subsection \<open>Spawner\<close>

text \<open>
  \<^verbatim>\<open>cubes.filter(c => !activeCubes.has(c))\<close>: the references of the cubes that are not
  in the set, in array order.
\<close>

definition available_cubes :: "state \<Rightarrow> nat list" where
  "available_cubes s =
     filter (\<lambda>c. \<not> set_has (activeCubes s) c) [0..<length (cubes s)]"

text \<open>
  The product \<^verbatim>\<open>Math.random() * available.length\<close> is a multiplication of two
  doubles: the exact product, rounded to the nearest double, ties to the even
  significand (IEEE 754 binary64, the only rounding of ECMAScript numbers).  A positive
  double is \<open>m * 2^(e - 52)\<close> with \<open>2^52 \<le> m < 2^53\<close> for \<open>- 1022 \<le> e \<le> 1023\<close>, or
  with \<open>m < 2^52\<close> for \<open>e = - 1022\<close> (the subnormals).  Products of \<open>2^1024\<close> and more
  give \<^verbatim>\<open>Infinity\<close>; a random value below 1 times an array length stays far below.
\<close>

definition pow2 :: "int \<Rightarrow> real" where
  "pow2 e = (if 0 \<le> e then 2 ^ nat e else 1 / 2 ^ nat (- e))"

text \<open>
  The exponent \<open>e\<close> of the doubles around a positive real \<open>x\<close>: the one with
  \<open>2^e \<le> x < 2^(e + 1)\<close>, and \<open>- 1022\<close> below the normal range.  \<open>floorlog 2 k\<close> is the
  number of binary digits of \<open>k\<close>.
\<close>

definition binade :: "real \<Rightarrow> int" where
  "binade x =
     (if 1 \<le> x then int (floorlog 2 (nat \<lfloor>x\<rfloor>)) - 1
      else max (- 1022) (- int (floorlog 2 (nat (\<lceil>1 / x\<rceil> - 1)))))"

definition round_half_even :: "real \<Rightarrow> int" where
  "round_half_even q =
     (let f = \<lfloor>q\<rfloor>; d = q - of_int f
      in if d < 1 / 2 then f else if 1 / 2 < d then f + 1
         else if even f then f else f + 1)"

definition round_double :: "real \<Rightarrow> real" where
  "round_double x =
     (if x = 0 then 0
      else
        let a = \<bar>x\<bar>; u = pow2 (binade a - 52)
        in sgn x * (of_int (round_half_even (a / u)) * u))"

text \<open>
  \<^verbatim>\<open>Math.floor(Math.random() * available.length)\<close>, with the value of
  \<^verbatim>\<open>Math.random()\<close> a parameter \<open>r\<close>: a double with \<open>0 \<le> r < 1\<close>, hence at most
  \<open>1 - 2^-53\<close>.  The length of an array is below \<open>2^32\<close> and is a double as it is.
\<close>

definition random_index :: "real \<Rightarrow> nat \<Rightarrow> int" where
  "random_index r n = \<lfloor>round_double (r * real n)\<rfloor>"

text \<open>
  Reading an array outside its bounds gives \<^verbatim>\<open>undefined\<close>, and the next statement
  (\<^verbatim>\<open>cube.userData.isActive = true\<close>) then throws before anything has been written:
  the callback ends with the state as it was.
\<close>

definition activateRandomCube :: "state \<Rightarrow> real \<Rightarrow> state" where
  "activateRandomCube s r =
     (if gameOver s then s
      else if set_size (activeCubes s) \<ge> maxActive then s
      else
        let available = available_cubes s in
        if length available = 0 then s
        else
          let k = random_index r (length available) in
          if 0 \<le> k \<and> k < int (length available) then
            let cube = available ! nat k in
            s\<lparr>cubes := (cubes s)[cube := (cubes s ! cube)\<lparr>isActive := True\<rparr>],
              activeCubes := set_add (activeCubes s) cube\<rparr>
          else s)"

definition deactivateCube :: "state \<Rightarrow> nat \<Rightarrow> state" where
  "deactivateCube s cube =
     s\<lparr>cubes := (cubes s)[cube := (cubes s ! cube)\<lparr>isActive := False\<rparr>],
       activeCubes := set_delete (activeCubes s) cube\<rparr>"

text \<open>The 700 ms interval callback: \<^verbatim>\<open>if (!gameOver) activateRandomCube()\<close>.\<close>

definition spawnCallback :: "state \<Rightarrow> real \<Rightarrow> state" where
  "spawnCallback s r = (if \<not> gameOver s then activateRandomCube s r else s)"

subsection \<open>Click handler\<close>

text \<open>
  The raycaster is the rendering library's.  A click is given to the model as the
  references of the objects its ray pierces, nearest first;
  \<^verbatim>\<open>raycaster.intersectObjects(cubes)\<close> tests only the members of \<^verbatim>\<open>cubes\<close>, so a
  reference that is not a cube (the ground, say) never appears in its result.
\<close>

definition intersectObjects :: "userData list \<Rightarrow> nat list \<Rightarrow> nat list" where
  "intersectObjects cs ray = filter (\<lambda>c. c < length cs) ray"

definition onClick :: "state \<Rightarrow> nat list \<Rightarrow> state" where
  "onClick s ray =
     (if gameOver s then s
      else
        (case intersectObjects (cubes s) ray of
           [] \<Rightarrow> s
         | hit # _ \<Rightarrow>
             if isActive (cubes s ! hit)
             then updateUI (deactivateCube (s\<lparr>score := score s + 1\<rparr>) hit)
             else s))"

section \<open>Sessions\<close>

text \<open>
  The host delivers three kinds of event.  A countdown tick reaches its callback only
  while the interval is registered.
\<close>

datatype event = SpawnTick real | TimerTick | Click "nat list"

fun step :: "state \<Rightarrow> event \<Rightarrow> state" where
  "step s (SpawnTick r) = spawnCallback s r"
| "step s TimerTick = (if timerScheduled s then timerCallback s else s)"
| "step s (Click ray) = onClick s ray"

definition run :: "state \<Rightarrow> event list \<Rightarrow> state" where
  "run s es = foldl step s es"

text \<open>The target a click resolves to: \<^verbatim>\<open>intersects[0].object\<close>, if there is one.\<close>

definition pickedTarget :: "state \<Rightarrow> nat list \<Rightarrow> nat option" where
  "pickedTarget s ray =
     (case intersectObjects (cubes s) ray of [] \<Rightarrow> None | hit # _ \<Rightarrow> Some hit)"


section \<open>Vocabulary of the properties\<close>

text \<open>
  The representation invariant that ties the flag of a cube to the set: the spawner
  looks a cube up in \<open>activeCubes\<close>, the click handler reads \<open>isActive\<close>.
\<close>

definition rep_inv :: "state \<Rightarrow> bool" where
  "rep_inv s \<longleftrightarrow>
     (\<forall>c<length (cubes s). isActive (cubes s ! c) = set_has (activeCubes s) c)"

text \<open>The set is duplicate-free, holds cubes only, agrees with the flags and is bounded.\<close>

definition set_inv :: "state \<Rightarrow> bool" where
  "set_inv s \<longleftrightarrow>
     distinct (activeCubes s) \<and>
     set (activeCubes s) \<subseteq> {..<length (cubes s)} \<and>
     (\<forall>c<length (cubes s). isActive (cubes s ! c) = (c \<in> set (activeCubes s))) \<and>
     length (activeCubes s) \<le> maxActive"

text \<open>The clock: never negative, at zero exactly when the game is over, and the
  interval is registered exactly while the game is on.\<close>

definition clock_inv :: "state \<Rightarrow> bool" where
  "clock_inv s \<longleftrightarrow>
     0 \<le> timeLeft s \<and> (gameOver s = (timeLeft s = 0)) \<and>
     (timerScheduled s = (\<not> gameOver s))"

text \<open>
  When a call of the spawner passes all its guards, and the cube it then takes from
  \<^verbatim>\<open>available\<close>.
\<close>

definition spawns :: "state \<Rightarrow> real \<Rightarrow> bool" where
  "spawns s r \<longleftrightarrow>
     \<not> gameOver s \<and> length (activeCubes s) < maxActive \<and> available_cubes s \<noteq> [] \<and>
     0 \<le> random_index r (length (available_cubes s)) \<and>
     random_index r (length (available_cubes s)) < int (length (available_cubes s))"

definition chosen :: "state \<Rightarrow> real \<Rightarrow> nat" where
  "chosen s r = available_cubes s ! nat (random_index r (length (available_cubes s)))"

text \<open>When a click scores: the game is on and the picked target has its flag set.\<close>

definition scores :: "state \<Rightarrow> nat list \<Rightarrow> bool" where
  "scores s ray \<longleftrightarrow>
     \<not> gameOver s \<and>
     (case pickedTarget s ray of None \<Rightarrow> False | Some t \<Rightarrow> isActive (cubes s ! t))"

text \<open>
  An event is a click on an active target when it is a click, the click resolves to a
  target, and that target's flag is set in the state the click arrives in.
\<close>

definition active_click :: "state \<Rightarrow> event \<Rightarrow> bool" where
  "active_click s e =
     (case e of
        Click ray \<Rightarrow>
          (case pickedTarget s ray of None \<Rightarrow> False | Some t \<Rightarrow> isActive (cubes s ! t))
      | _ \<Rightarrow> False)"

text \<open>
  The count in the words of the specification: along a session, the clicks whose
  argument was an active target at the moment of the call.
\<close>

fun spec_hit_count :: "state \<Rightarrow> event list \<Rightarrow> nat" where
  "spec_hit_count s [] = 0"
| "spec_hit_count s (e # es) =
     (if active_click s e then 1 else 0) + spec_hit_count (step s e) es"

text \<open>The same count restricted to the clicks that arrive while the game is on.\<close>

fun live_hit_count :: "state \<Rightarrow> event list \<Rightarrow> nat" where
  "live_hit_count s [] = 0"
| "live_hit_count s (e # es) =
     (if \<not> gameOver s \<and> active_click s e then 1 else 0) + live_hit_count (step s e) es"

text \<open>How often \<open>gameOver\<close> changes its value along a session.\<close>

fun over_changes :: "state \<Rightarrow> event list \<Rightarrow> nat" where
  "over_changes s [] = 0"
| "over_changes s (e # es) =
     (if gameOver (step s e) \<noteq> gameOver s then 1 else 0) + over_changes (step s e) es"


section \<open>Basic facts\<close>

lemma init_simps:
  "score init = 0" "timeLeft init = 30" "gameOver init = False" "timerScheduled init = True"
  "cubes init = init_cubes" "activeCubes init = []"
  by (simp_all add: init_def updateUI_def)

lemma length_init_cubes: "length init_cubes = 24"
  by (simp add: init_cubes_def rows_def cols_def)

lemma init_cubes_inactive: "c < 24 \<Longrightarrow> isActive (init_cubes ! c) = False"
  by (simp add: init_cubes_def rows_def cols_def)

lemma updateUI_fields [simp]:
  "score (updateUI s) = score s" "timeLeft (updateUI s) = timeLeft s"
  "gameOver (updateUI s) = gameOver s" "timerScheduled (updateUI s) = timerScheduled s"
  "cubes (updateUI s) = cubes s" "activeCubes (updateUI s) = activeCubes s"
  by (simp_all add: updateUI_def)

lemma run_Nil: "run s [] = s"
  by (simp add: run_def)

lemma run_Cons: "run s (e # es) = run (step s e) es"
  by (simp add: run_def)

lemma run_append: "run s (es @ es') = run (run s es) es'"
  by (simp add: run_def)

subsection \<open>The spawner, case by case\<close>

lemma available_mem:
  "c \<in> set (available_cubes s) \<longleftrightarrow> c < length (cubes s) \<and> c \<notin> set (activeCubes s)"
  by (auto simp: available_cubes_def set_has_def)


lemma activate_idle: "\<not> spawns s r \<Longrightarrow> activateRandomCube s r = s"
  by (auto simp: spawns_def activateRandomCube_def set_size_def Let_def)

lemma chosen_available: "spawns s r \<Longrightarrow> chosen s r \<in> set (available_cubes s)"
  unfolding chosen_def spawns_def by (intro nth_mem) linarith

lemma activate_spawn:
  assumes "spawns s r"
  shows "activateRandomCube s r =
     s\<lparr>cubes := (cubes s)[chosen s r := (cubes s ! chosen s r)\<lparr>isActive := True\<rparr>],
       activeCubes := activeCubes s @ [chosen s r]\<rparr>"
proof -
  have "chosen s r \<notin> set (activeCubes s)"
    using chosen_available [OF assms] by (simp add: available_mem)
  then show ?thesis
    using assms
    by (simp add: spawns_def activateRandomCube_def set_size_def Let_def chosen_def
        set_add_def set_has_def)
qed

lemma activate_keeps:
  "timeLeft (activateRandomCube s r) = timeLeft s"
  "gameOver (activateRandomCube s r) = gameOver s"
  "timerScheduled (activateRandomCube s r) = timerScheduled s"
  "score (activateRandomCube s r) = score s"
  "ui (activateRandomCube s r) = ui s"
  by (cases "spawns s r"; simp add: activate_idle activate_spawn)+

lemma activate_size:
  "length (activeCubes s) \<le> maxActive \<Longrightarrow>
   length (activeCubes (activateRandomCube s r)) \<le> maxActive"
  by (cases "spawns s r") (simp_all add: activate_idle activate_spawn spawns_def)

subsection \<open>The click handler, case by case\<close>

lemma pickedTarget_range:
  assumes "pickedTarget s ray = Some t"
  shows "t < length (cubes s)"
proof -
  obtain rest where "intersectObjects (cubes s) ray = t # rest"
    using assms by (auto simp: pickedTarget_def split: list.splits)
  then have "t \<in> set (filter (\<lambda>c. c < length (cubes s)) ray)"
    by (simp add: intersectObjects_def)
  then show ?thesis by simp
qed

lemma onClick_miss: "\<not> scores s ray \<Longrightarrow> onClick s ray = s"
  by (auto simp: scores_def onClick_def pickedTarget_def split: list.splits)

lemma onClick_hit:
  "scores s ray \<Longrightarrow> pickedTarget s ray = Some t \<Longrightarrow>
   onClick s ray =
     updateUI (s\<lparr>score := score s + 1,
        cubes := (cubes s)[t := (cubes s ! t)\<lparr>isActive := False\<rparr>],
        activeCubes := filter (\<lambda>y. y \<noteq> t) (activeCubes s)\<rparr>)"
  by (auto simp: scores_def onClick_def pickedTarget_def deactivateCube_def set_delete_def
      split: list.splits)

lemma onClick_keeps:
  "timeLeft (onClick s ray) = timeLeft s"
  "gameOver (onClick s ray) = gameOver s"
  "timerScheduled (onClick s ray) = timerScheduled s"
  by (auto simp: onClick_def updateUI_def deactivateCube_def split: list.splits)

subsection \<open>After the game is over\<close>

lemma over_step: "gameOver s \<Longrightarrow> step s e = s"
  by (cases e) (simp_all add: spawnCallback_def timerCallback_def onClick_def)

lemma over_run: "gameOver s \<Longrightarrow> run s es = s"
  by (induction es arbitrary: s) (simp_all add: run_Nil run_Cons over_step)

lemma timer_off_step: "\<not> timerScheduled s \<Longrightarrow> \<not> timerScheduled (step s e)"
  by (cases e) (simp_all add: spawnCallback_def activate_keeps onClick_keeps)

lemma timer_off_run: "\<not> timerScheduled s \<Longrightarrow> \<not> timerScheduled (run s es)"
  by (induction es arbitrary: s) (simp_all add: run_Nil run_Cons timer_off_step)

subsection \<open>Invariants of every session\<close>

lemma set_inv_init: "set_inv init"
  by (simp add: set_inv_def init_simps length_init_cubes init_cubes_inactive)

lemma clock_inv_init: "clock_inv init"
  by (simp add: clock_inv_def init_simps)

lemma rep_inv_init: "rep_inv init"
  by (simp add: rep_inv_def init_simps length_init_cubes init_cubes_inactive set_has_def)

lemma set_inv_updateUI [simp]: "set_inv (updateUI s) = set_inv s"
  by (simp add: set_inv_def)

lemma set_inv_activate:
  assumes "set_inv s"
  shows "set_inv (activateRandomCube s r)"
proof (cases "spawns s r")
  case False
  then show ?thesis using assms by (simp add: activate_idle)
next
  case True
  have c: "chosen s r < length (cubes s)" "chosen s r \<notin> set (activeCubes s)"
    using chosen_available [OF True] by (simp_all add: available_mem)
  have "length (activeCubes s) < maxActive" using True by (simp add: spawns_def)
  then show ?thesis
    unfolding activate_spawn [OF True] using assms c
    by (auto simp: set_inv_def nth_list_update)
qed

lemma set_inv_onClick:
  assumes "set_inv s"
  shows "set_inv (onClick s ray)"
proof (cases "scores s ray")
  case False
  then show ?thesis using assms by (simp add: onClick_miss)
next
  case True
  then obtain t where t: "pickedTarget s ray = Some t"
    by (auto simp: scores_def split: option.splits)
  have "length (activeCubes s) \<le> maxActive"
    using assms by (simp add: set_inv_def)
  then have len: "length (filter (\<lambda>y. y \<noteq> t) (activeCubes s)) \<le> maxActive"
    by (rule le_trans [OF length_filter_le])
  show ?thesis
    unfolding onClick_hit [OF True t] set_inv_updateUI
    using assms pickedTarget_range [OF t] len
    by (auto simp: set_inv_def nth_list_update)
qed

lemma set_inv_timer: "set_inv s \<Longrightarrow> set_inv (timerCallback s)"
  by (simp add: timerCallback_def Let_def set_inv_def)

lemma set_inv_step: "set_inv s \<Longrightarrow> set_inv (step s e)"
  by (cases e) (simp_all add: spawnCallback_def set_inv_activate set_inv_timer set_inv_onClick)

lemma set_inv_run: "set_inv s \<Longrightarrow> set_inv (run s es)"
  by (induction es arbitrary: s) (simp_all add: run_Nil run_Cons set_inv_step)

lemma clock_inv_step: "clock_inv s \<Longrightarrow> clock_inv (step s e)"
  by (cases e)
    (auto simp: clock_inv_def spawnCallback_def activate_keeps onClick_keeps
      timerCallback_def Let_def)

lemma clock_inv_run: "clock_inv s \<Longrightarrow> clock_inv (run s es)"
  by (induction es arbitrary: s) (simp_all add: run_Nil run_Cons clock_inv_step)

lemma rep_inv_activate: "rep_inv s \<Longrightarrow> rep_inv (activateRandomCube s r)"
proof (cases "spawns s r")
  case False
  then show "rep_inv s \<Longrightarrow> ?thesis" by (simp add: activate_idle)
next
  case True
  have "chosen s r < length (cubes s)"
    using chosen_available [OF True] by (simp add: available_mem)
  then show "rep_inv s \<Longrightarrow> ?thesis"
    unfolding activate_spawn [OF True]
    by (auto simp: rep_inv_def set_has_def nth_list_update)
qed

lemma rep_inv_onClick: "rep_inv s \<Longrightarrow> rep_inv (onClick s ray)"
proof (cases "scores s ray")
  case False
  then show "rep_inv s \<Longrightarrow> ?thesis" by (simp add: onClick_miss)
next
  case True
  then obtain t where t: "pickedTarget s ray = Some t"
    by (auto simp: scores_def split: option.splits)
  show "rep_inv s \<Longrightarrow> ?thesis"
    unfolding onClick_hit [OF True t] using pickedTarget_range [OF t]
    by (auto simp: rep_inv_def set_has_def nth_list_update)
qed

lemma rep_inv_timer: "rep_inv s \<Longrightarrow> rep_inv (timerCallback s)"
  by (simp add: rep_inv_def timerCallback_def Let_def)

lemma rep_inv_step: "rep_inv s \<Longrightarrow> rep_inv (step s e)"
  by (cases e) (simp_all add: spawnCallback_def rep_inv_activate rep_inv_onClick rep_inv_timer)

lemma rep_inv_run: "rep_inv s \<Longrightarrow> rep_inv (run s es)"
  by (induction es arbitrary: s) (simp_all add: run_Nil run_Cons rep_inv_step)





section \<open>Scoring\<close>

lemma score_step:
  "score (step s e) = score s + (if \<not> gameOver s \<and> active_click s e then 1 else 0)"
proof (cases e)
  case (SpawnTick r)
  then show ?thesis by (simp add: spawnCallback_def activate_keeps active_click_def)
next
  case TimerTick
  then show ?thesis by (simp add: timerCallback_def Let_def active_click_def)
next
  case (Click ray)
  show ?thesis
  proof (cases "scores s ray")
    case True
    then obtain t where t: "pickedTarget s ray = Some t"
      by (auto simp: scores_def split: option.splits)
    from True t show ?thesis
      by (simp add: Click onClick_hit [OF True t] active_click_def scores_def)
  next
    case False
    then show ?thesis
      by (auto simp: Click onClick_miss active_click_def scores_def split: option.splits)
  qed
qed

lemma score_run: "score (run s es) = score s + int (live_hit_count s es)"
  by (induction es arbitrary: s) (simp_all add: run_Nil run_Cons score_step)

text \<open>
  C1, as stated: the final score equals the number of clicks whose argument was an
  active target at the moment of the call.  The handler returns at once when the game
  is over, and cubes that are lit when the countdown ends stay lit, so a click on one
  of them is counted by the statement and not by the score.  The session: one spawner
  tick with random value 0 lights the first cube, thirty countdown ticks end the game,
  then the lit cube is clicked.
\<close>

theorem late_click_not_scored:
  "score (run init (SpawnTick 0 # replicate 30 TimerTick @ [Click [0]])) = 0 \<and>
   spec_hit_count init (SpawnTick 0 # replicate 30 TimerTick @ [Click [0]]) = 1 \<and>
   gameOver (run init (SpawnTick 0 # replicate 30 TimerTick)) \<and>
   isActive (cubes (run init (SpawnTick 0 # replicate 30 TimerTick)) ! 0)"
  by code_simp

text \<open>
  C1, amended: for every session from the initial state, the final score equals the
  number of clicks that arrived while the game was not over and whose argument was a
  target with its flag set at the moment of the call.
\<close>

theorem score_counts_live_hits: "score (run init es) = int (live_hit_count init es)"
  by (simp add: score_run init_simps)

theorem score_counts_live_hits_witness:
  "live_hit_count init [SpawnTick 0, Click [0], Click [0], Click [7], Click []] = 1 \<and>
   score (run init [SpawnTick 0, Click [0], Click [0], Click [7], Click []]) = 1"
proof -
  have n: "live_hit_count init [SpawnTick 0, Click [0], Click [0], Click [7], Click []] = 1"
    by code_simp
  have "score (run init [SpawnTick 0, Click [0], Click [0], Click [7], Click []]) = 1"
    unfolding score_counts_live_hits n by simp
  with n show ?thesis by (rule conjI)
qed

section \<open>The bound on the active set\<close>

text \<open>
  C2: in every state reached from the initial one by any sequence of spawner ticks,
  countdown ticks and clicks, the active set has at most \<open>maxActive = 3\<close> members (its
  size is the number of distinct cubes in it); and a call of the spawner on any state
  within the bound leaves the state within the bound.
\<close>

theorem active_set_bounded:
  "set_size (activeCubes (run init es)) \<le> maxActive \<and> maxActive = 3 \<and>
   card (set (activeCubes (run init es))) = set_size (activeCubes (run init es)) \<and>
   (set_size (activeCubes s) \<le> maxActive \<longrightarrow>
      set_size (activeCubes (activateRandomCube s r)) \<le> maxActive)"
proof -
  have "maxActive = 3" by (simp add: maxActive_def)
  then show ?thesis
    using set_inv_run [OF set_inv_init, of es]
    by (simp add: set_inv_def set_size_def activate_size distinct_card)
qed

theorem active_set_bounded_witness:
  "set_size (activeCubes init) \<le> maxActive \<and>
   set_size (activeCubes (activateRandomCube init 0)) \<le> maxActive \<and>
   set_size (activeCubes (run init [SpawnTick 0, SpawnTick 0, SpawnTick 0, SpawnTick 0]))
     \<le> maxActive"
proof -
  have h: "set_size (activeCubes init) \<le> maxActive" by code_simp
  show ?thesis
    using h active_set_bounded [of "[SpawnTick 0, SpawnTick 0, SpawnTick 0, SpawnTick 0]" init 0]
    by blast
qed

section \<open>Game over\<close>

text \<open>
  C3: once \<open>gameOver\<close> is set, a call of the spawner (the function or its interval
  callback), a click with any argument and a countdown tick each return the state
  unchanged: score, time left, the active set, every cube's flag and all the rest; so
  does any sequence of events.
\<close>

theorem game_over_freezes:
  assumes "gameOver s"
  shows "activateRandomCube s r = s \<and> spawnCallback s r = s \<and> onClick s ray = s \<and>
         timerCallback s = s \<and> step s e = s \<and> run s es = s"
  using assms
  by (simp add: over_step over_run activateRandomCube_def spawnCallback_def onClick_def
      timerCallback_def)

theorem game_over_freezes_witness:
  "gameOver (run init (SpawnTick 0 # replicate 30 TimerTick)) \<and>
   activateRandomCube (run init (SpawnTick 0 # replicate 30 TimerTick)) (1 / 2)
     = run init (SpawnTick 0 # replicate 30 TimerTick) \<and>
   onClick (run init (SpawnTick 0 # replicate 30 TimerTick)) [0]
     = run init (SpawnTick 0 # replicate 30 TimerTick) \<and>
   timerCallback (run init (SpawnTick 0 # replicate 30 TimerTick))
     = run init (SpawnTick 0 # replicate 30 TimerTick)"
proof -
  have g: "gameOver (run init (SpawnTick 0 # replicate 30 TimerTick))" by code_simp
  show ?thesis
    using g game_over_freezes [OF g, of "1 / 2" "[0]" TimerTick "[]"] by blast
qed

text \<open>
  C4: a countdown tick while the game is on takes one off \<open>timeLeft\<close>; when the result
  is not positive it sets \<open>timeLeft\<close> to 0, sets \<open>gameOver\<close> and cancels its interval,
  after which the interval is never registered again and countdown events change
  nothing; a tick when the game is over changes nothing.  From \<open>timeLeft = 1\<close> one tick
  gives \<open>timeLeft = 0\<close> and \<open>gameOver\<close>, and a second tick leaves the state as it is.
  The tick never touches the score, the cubes or the active set.
\<close>

theorem countdown_tick:
  "(\<not> gameOver s \<and> 0 < timeLeft s - 1 \<longrightarrow>
      timeLeft (timerCallback s) = timeLeft s - 1 \<and> \<not> gameOver (timerCallback s) \<and>
      timerScheduled (timerCallback s) = timerScheduled s) \<and>
   (\<not> gameOver s \<and> timeLeft s - 1 \<le> 0 \<longrightarrow>
      timeLeft (timerCallback s) = 0 \<and> gameOver (timerCallback s) \<and>
      \<not> timerScheduled (timerCallback s) \<and>
      \<not> timerScheduled (run (timerCallback s) es) \<and>
      run (timerCallback s) (replicate n TimerTick) = timerCallback s) \<and>
   (gameOver s \<longrightarrow> timerCallback s = s) \<and>
   (\<not> gameOver s \<and> timeLeft s = 1 \<longrightarrow>
      timeLeft (timerCallback s) = 0 \<and> gameOver (timerCallback s) \<and>
      timerCallback (timerCallback s) = timerCallback s) \<and>
   score (timerCallback s) = score s \<and> cubes (timerCallback s) = cubes s \<and>
   activeCubes (timerCallback s) = activeCubes s"
proof -
  have fin: "\<not> timerScheduled (run (timerCallback s) es) \<and>
             run (timerCallback s) (replicate n TimerTick) = timerCallback s"
    if "\<not> gameOver s" "timeLeft s - 1 \<le> 0"
  proof -
    have "\<not> timerScheduled (timerCallback s)" "gameOver (timerCallback s)"
      using that by (simp_all add: timerCallback_def Let_def)
    then show ?thesis by (simp add: timer_off_run over_run)
  qed
  have twice: "timerCallback (timerCallback s) = timerCallback s"
    if "\<not> gameOver s" "timeLeft s = 1"
  proof -
    have "gameOver (timerCallback s)" using that by (simp add: timerCallback_def Let_def)
    then show ?thesis by (subst (1) timerCallback_def) simp
  qed
  show ?thesis
    using fin twice by (simp add: timerCallback_def Let_def)
qed

theorem countdown_tick_witness:
  "\<not> gameOver (run init (replicate 29 TimerTick)) \<and>
   timeLeft (run init (replicate 29 TimerTick)) = 1 \<and>
   timeLeft (timerCallback (run init (replicate 29 TimerTick))) = 0 \<and>
   gameOver (timerCallback (run init (replicate 29 TimerTick))) \<and>
   \<not> timerScheduled (timerCallback (run init (replicate 29 TimerTick))) \<and>
   timerCallback (timerCallback (run init (replicate 29 TimerTick)))
     = timerCallback (run init (replicate 29 TimerTick))"
proof -
  have g: "\<not> gameOver (run init (replicate 29 TimerTick))" by code_simp
  have t: "timeLeft (run init (replicate 29 TimerTick)) = 1" by code_simp
  then have t': "timeLeft (run init (replicate 29 TimerTick)) - 1 \<le> 0" by simp
  show ?thesis
    using g t t' countdown_tick [of "run init (replicate 29 TimerTick)" "[]" 0] by blast
qed

section \<open>Clicks\<close>

text \<open>
  C5: a click while the game is on.  If it resolves to a target whose flag is set, the
  score goes up by exactly 1, that target's flag is cleared (no other cube changes) and
  it is removed from the active set (no other member is); time left and \<open>gameOver\<close>
  keep their values.  If it resolves to no target, or to a target whose flag is off,
  the state is unchanged.
\<close>

theorem resolve_click:
  assumes "\<not> gameOver s"
  shows "case pickedTarget s ray of
           None \<Rightarrow> onClick s ray = s
         | Some t \<Rightarrow>
             if isActive (cubes s ! t) then
               score (onClick s ray) = score s + 1 \<and>
               cubes (onClick s ray) = (cubes s)[t := (cubes s ! t)\<lparr>isActive := False\<rparr>] \<and>
               \<not> isActive (cubes (onClick s ray) ! t) \<and>
               activeCubes (onClick s ray) = set_delete (activeCubes s) t \<and>
               \<not> set_has (activeCubes (onClick s ray)) t \<and>
               set (activeCubes (onClick s ray)) = set (activeCubes s) - {t} \<and>
               timeLeft (onClick s ray) = timeLeft s \<and>
               gameOver (onClick s ray) = gameOver s
             else onClick s ray = s"
proof (cases "pickedTarget s ray")
  case None
  then show ?thesis by (simp add: onClick_miss scores_def)
next
  case (Some t)
  show ?thesis
  proof (cases "isActive (cubes s ! t)")
    case False
    then show ?thesis using Some by (simp add: onClick_miss scores_def)
  next
    case True
    then have sc: "scores s ray" using Some assms by (simp add: scores_def)
    have "t < length (cubes s)" by (rule pickedTarget_range [OF Some])
    then show ?thesis
      using Some True
      by (auto simp: onClick_hit [OF sc Some] set_delete_def set_has_def)
  qed
qed

theorem resolve_click_witness:
  "\<not> gameOver (run init [SpawnTick 0]) \<and>
   pickedTarget (run init [SpawnTick 0]) [0, 5] = Some 0 \<and>
   isActive (cubes (run init [SpawnTick 0]) ! 0) \<and>
   score (onClick (run init [SpawnTick 0]) [0, 5]) = score (run init [SpawnTick 0]) + 1 \<and>
   \<not> isActive (cubes (onClick (run init [SpawnTick 0]) [0, 5]) ! 0) \<and>
   \<not> set_has (activeCubes (onClick (run init [SpawnTick 0]) [0, 5])) 0 \<and>
   pickedTarget (run init [SpawnTick 0]) [5] = Some 5 \<and>
   \<not> isActive (cubes (run init [SpawnTick 0]) ! 5) \<and>
   onClick (run init [SpawnTick 0]) [5] = run init [SpawnTick 0] \<and>
   pickedTarget (run init [SpawnTick 0]) [24] = None \<and>
   onClick (run init [SpawnTick 0]) [24] = run init [SpawnTick 0]"
proof -
  have g: "\<not> gameOver (run init [SpawnTick 0])" by code_simp
  have p0: "pickedTarget (run init [SpawnTick 0]) [0, 5] = Some 0" by code_simp
  have a0: "isActive (cubes (run init [SpawnTick 0]) ! 0)" by code_simp
  have p5: "pickedTarget (run init [SpawnTick 0]) [5] = Some 5" by code_simp
  have a5: "\<not> isActive (cubes (run init [SpawnTick 0]) ! 5)" by code_simp
  have pn: "pickedTarget (run init [SpawnTick 0]) [24] = None" by code_simp
  note r0 = resolve_click [OF g, of "[0, 5]", unfolded p0 option.case if_P [OF a0]]
  note r5 = resolve_click [OF g, of "[5]", unfolded p5 option.case if_not_P [OF a5]]
  note rn = resolve_click [OF g, of "[24]", unfolded pn option.case]
  show ?thesis
    using g p0 a0 p5 a5 pn r0 r5 rn by blast
qed



section \<open>The spawner\<close>

subsection \<open>Rounding to a double\<close>






















subsection \<open>The choice of the spawner\<close>




section \<open>The clock\<close>

lemma timeLeft_step: "clock_inv s \<Longrightarrow> timeLeft (step s e) \<le> timeLeft s"
  by (cases e)
    (auto simp: clock_inv_def spawnCallback_def activate_keeps onClick_keeps
      timerCallback_def Let_def)

lemma timeLeft_run: "clock_inv s \<Longrightarrow> timeLeft (run s es) \<le> timeLeft s"
proof (induction es arbitrary: s)
  case Nil
  then show ?case by (simp add: run_Nil)
next
  case (Cons e es)
  have "timeLeft (run (step s e) es) \<le> timeLeft (step s e)"
    by (rule Cons.IH) (rule clock_inv_step [OF Cons.prems])
  also have "\<dots> \<le> timeLeft s" by (rule timeLeft_step [OF Cons.prems])
  finally show ?case by (simp add: run_Cons)
qed

text \<open>
  C8: in every state of a session \<open>timeLeft\<close> is at least 0, and from such a state no
  event, no callback called directly and no further sequence of events gives a larger
  \<open>timeLeft\<close>; the spawner and the click handler leave it as it is.
\<close>

theorem time_left_monotone:
  "0 \<le> timeLeft (run init es) \<and>
   timeLeft (step (run init es) e) \<le> timeLeft (run init es) \<and>
   timeLeft (timerCallback (run init es)) \<le> timeLeft (run init es) \<and>
   timeLeft (activateRandomCube (run init es) r) = timeLeft (run init es) \<and>
   timeLeft (onClick (run init es) ray) = timeLeft (run init es) \<and>
   timeLeft (run init (es @ es')) \<le> timeLeft (run init es)"
proof -
  have ci: "clock_inv (run init es)" by (rule clock_inv_run [OF clock_inv_init])
  have "timeLeft (timerCallback (run init es)) \<le> timeLeft (run init es)"
    using ci by (auto simp: clock_inv_def timerCallback_def Let_def)
  then show ?thesis
    using ci timeLeft_step [OF ci, of e] timeLeft_run [OF ci, of es']
    by (simp add: clock_inv_def activate_keeps onClick_keeps run_append)
qed

theorem time_left_monotone_witness:
  "timeLeft (run init (replicate 29 TimerTick)) = 1 \<and>
   timeLeft (step (run init (replicate 29 TimerTick)) TimerTick) = 0 \<and>
   0 \<le> timeLeft (run init (replicate 29 TimerTick)) \<and>
   timeLeft (step (run init (replicate 29 TimerTick)) TimerTick)
     \<le> timeLeft (run init (replicate 29 TimerTick)) \<and>
   timeLeft (run init (replicate 29 TimerTick @ [TimerTick, TimerTick, Click [0]]))
     \<le> timeLeft (run init (replicate 29 TimerTick))"
proof -
  have a: "timeLeft (run init (replicate 29 TimerTick)) = 1"
    "timeLeft (step (run init (replicate 29 TimerTick)) TimerTick) = 0"
    by code_simp+
  show ?thesis
    using a time_left_monotone [of "replicate 29 TimerTick" TimerTick 0 "[]"
        "[TimerTick, TimerTick, Click [0]]"]
    by blast
qed

lemma over_changes_over: "gameOver s \<Longrightarrow> over_changes s es = 0"
  by (induction es arbitrary: s) (simp_all add: over_step)

lemma over_changes_le: "over_changes s es \<le> 1"
proof (induction es arbitrary: s)
  case Nil
  then show ?case by simp
next
  case (Cons e es)
  show ?case
  proof (cases "gameOver (step s e) \<noteq> gameOver s")
    case False
    then show ?thesis using Cons.IH [of "step s e"] by simp
  next
    case True
    then have "\<not> gameOver s" using over_step [of s e] by auto
    with True have "gameOver (step s e)" by simp
    then show ?thesis using True by (simp add: over_changes_over)
  qed
qed

text \<open>
  C9: \<open>gameOver\<close> is never reset: once set it stays set after any event and any
  sequence of events, and along any session from the initial state its value changes
  at most once.  In every state of a session it is set exactly when \<open>timeLeft\<close> is 0,
  and the one event that sets it is the countdown tick that takes \<open>timeLeft\<close> from 1
  to 0.
\<close>

theorem game_over_one_way:
  "(gameOver s \<longrightarrow> gameOver (step s e) \<and> gameOver (run s es')) \<and>
   over_changes init es \<le> 1 \<and>
   gameOver (run init es) = (timeLeft (run init es) = 0) \<and>
   (\<not> gameOver (run init es) \<and> gameOver (step (run init es) e) \<longrightarrow>
      e = TimerTick \<and> timeLeft (run init es) = 1 \<and> timeLeft (step (run init es) e) = 0)"
proof -
  have ci: "clock_inv (run init es)" by (rule clock_inv_run [OF clock_inv_init])
  have "e = TimerTick \<and> timeLeft (run init es) = 1 \<and> timeLeft (step (run init es) e) = 0"
    if "\<not> gameOver (run init es)" "gameOver (step (run init es) e)"
    using that ci
    by (cases e)
      (auto simp: clock_inv_def spawnCallback_def activate_keeps onClick_keeps
        timerCallback_def Let_def split: if_splits)
  then show ?thesis
    using ci over_changes_le [of init es] by (auto simp: over_step over_run clock_inv_def)
qed

theorem game_over_one_way_witness:
  "\<not> gameOver (run init (replicate 29 TimerTick)) \<and>
   gameOver (step (run init (replicate 29 TimerTick)) TimerTick) \<and>
   timeLeft (run init (replicate 29 TimerTick)) = 1 \<and>
   timeLeft (step (run init (replicate 29 TimerTick)) TimerTick) = 0 \<and>
   gameOver (run init (replicate 30 TimerTick)) \<and>
   gameOver (step (run init (replicate 30 TimerTick)) TimerTick) \<and>
   gameOver (run (run init (replicate 30 TimerTick)) [SpawnTick 0, Click [0]])"
proof -
  have a: "\<not> gameOver (run init (replicate 29 TimerTick))"
    "gameOver (step (run init (replicate 29 TimerTick)) TimerTick)"
    "gameOver (run init (replicate 30 TimerTick))"
    by code_simp+
  show ?thesis
    using a game_over_one_way [of "run init (replicate 30 TimerTick)" TimerTick
        "[SpawnTick 0, Click [0]]" "replicate 29 TimerTick"]
    by blast
qed

section \<open>Flags and set agree\<close>

text \<open>
  C10: in every state of a session, a cube has its flag set exactly when it is in
  \<open>activeCubes\<close>.  This holds at the start, where every cube is created with the flag
  off and the set is empty, and each of the callbacks, called on any state where it
  holds, returns a state where it holds.
\<close>

theorem flag_matches_set:
  "(\<forall>c<length (cubes (run init es)).
      isActive (cubes (run init es) ! c) = set_has (activeCubes (run init es)) c) \<and>
   (\<forall>c<length (cubes init). \<not> isActive (cubes init ! c)) \<and> activeCubes init = [] \<and>
   (rep_inv s \<longrightarrow>
      rep_inv (activateRandomCube s r) \<and> rep_inv (onClick s ray) \<and>
      rep_inv (timerCallback s) \<and> rep_inv (step s e))"
  using rep_inv_run [OF rep_inv_init, of es]
  by (simp add: rep_inv_def [of "run init es"] init_simps length_init_cubes init_cubes_inactive
      rep_inv_activate rep_inv_onClick rep_inv_timer rep_inv_step)

theorem flag_matches_set_witness:
  "12 < length (cubes (run init [SpawnTick 0, SpawnTick (1 / 2), Click [0]])) \<and>
   isActive (cubes (run init [SpawnTick 0, SpawnTick (1 / 2), Click [0]]) ! 12) \<and>
   set_has (activeCubes (run init [SpawnTick 0, SpawnTick (1 / 2), Click [0]])) 12 \<and>
   0 < length (cubes (run init [SpawnTick 0, SpawnTick (1 / 2), Click [0]])) \<and>
   \<not> isActive (cubes (run init [SpawnTick 0, SpawnTick (1 / 2), Click [0]]) ! 0) \<and>
   \<not> set_has (activeCubes (run init [SpawnTick 0, SpawnTick (1 / 2), Click [0]])) 0 \<and>
   rep_inv init \<and> rep_inv (step init (SpawnTick 0))"
proof -
  have a: "12 < length (cubes (run init [SpawnTick 0, SpawnTick (1 / 2), Click [0]]))"
    "isActive (cubes (run init [SpawnTick 0, SpawnTick (1 / 2), Click [0]]) ! 12)"
    "0 < length (cubes (run init [SpawnTick 0, SpawnTick (1 / 2), Click [0]]))"
    "\<not> isActive (cubes (run init [SpawnTick 0, SpawnTick (1 / 2), Click [0]]) ! 0)"
    by code_simp+
  show ?thesis
    using a rep_inv_init
      flag_matches_set [of "[SpawnTick 0, SpawnTick (1 / 2), Click [0]]" init 0 "[]" "SpawnTick 0"]
    by blast
qed

end
